theory Spec2Isabelle
  imports Complex_Main
begin

section \<open>Beat-synchronised editing: \<^verbatim>\<open>editor.py\<close>\<close>

text \<open>
  Timestamps are the numbers of the beat list and of the audio clip. The code only
  compares them, so they are modelled as real numbers. A clip is identified by the path
  it is loaded from.
\<close>

type_synonym path = string
type_synonym seconds = real

text \<open>
  The exceptions the function raises itself are \<^verbatim>\<open>ValueError\<close>s that differ in
  their message. \<open>VideoLoadError\<close> stands for whatever \<^verbatim>\<open>VideoFileClip(intro_clip_path)\<close>
  raised, which line 178 re-raises.
\<close>

datatype error =
    FileNotFoundError string
  | ValueError string
  | VideoLoadError path

definition EmptyClipPoolError :: error where
  "EmptyClipPoolError =
     ValueError ''No video files found in either clips/goon or clips/edit folders.''"

definition NoBeatsError :: error where
  "NoBeatsError = ValueError ''No beats detected or provided.''"

definition NoIntroBoundaryError :: error where
  "NoIntroBoundaryError = ValueError ''No beat found after MIN_INTRO_DURATION''"

definition NoSegmentsError :: error where
  "NoSegmentsError = ValueError ''Failed to create any valid video segments.''"

definition MIN_INTRO_DURATION :: seconds where
  "MIN_INTRO_DURATION = 2"

subsection \<open>\<^verbatim>\<open>detect_beats\<close>\<close>

text \<open>
  A parsed configuration file: each of the two top-level keys is present or not. A JSON
  object is an association list in the order of the file. \<open>detected\<close> is what the audio
  library finds in the audio file (beat times and the labelled onsets), used when no
  configuration supplies the beats.
\<close>

type_synonym labeled = "(string \<times> seconds list) list"

record config =
  cfg_labeled_beats :: "labeled option"
  cfg_beats :: "seconds list option"

definition detect_beats :: "config option \<Rightarrow> seconds list \<times> labeled \<Rightarrow> seconds list \<times> labeled" where
  "detect_beats config_file detected =
     (case config_file of
        None \<Rightarrow> detected
      | Some config \<Rightarrow>
          (case cfg_labeled_beats config of
             Some labeled_beats \<Rightarrow> (sort (concat (map snd labeled_beats)), labeled_beats)
           | None \<Rightarrow>
               (case cfg_beats config of
                  Some bs \<Rightarrow> (bs, [])
                | None \<Rightarrow> detected)))"

subsection \<open>\<^verbatim>\<open>create_beat_synchronized_video\<close>\<close>

text \<open>
  A planned segment: the span of the audio it is cut for and the clip it is cut from.
  The code turns each one into a video clip of duration \<open>end_time - start_time\<close>; the
  calls into the video library that do so (\<^verbatim>\<open>subclip\<close>, \<^verbatim>\<open>concatenate_videoclips\<close>,
  \<^verbatim>\<open>prepare_clip\<close>) are taken to succeed.
\<close>

record segment =
  start_time :: seconds
  end_time :: seconds
  clip :: path

text \<open>\<^verbatim>\<open>random.choice(xs)\<close> on a non-empty list, with the draw \<open>r\<close> made explicit.\<close>

definition random_choice :: "'a list \<Rightarrow> nat \<Rightarrow> 'a" where
  "random_choice xs r = xs ! (r mod length xs)"

text \<open>
  Lines 145--154: the clip folders are listed, the function fails when both are empty,
  and the intro clip is drawn from the intro folder (from the main folder when the intro
  folder is empty). All main clips stay available for the later segments.
\<close>

definition select_clips :: "path list \<Rightarrow> path list \<Rightarrow> nat \<Rightarrow> error + path \<times> path list" where
  "select_clips goon_clips zeta_clips r =
     (if goon_clips = [] \<and> zeta_clips = [] then Inl EmptyClipPoolError
      else Inr (if goon_clips \<noteq> [] then random_choice goon_clips r
                else random_choice zeta_clips r,
                zeta_clips))"

text \<open>Line 164: \<^verbatim>\<open>next((b for b in beats if b >= MIN_INTRO_DURATION), None)\<close>.\<close>

definition next_beat_after_intro :: "seconds \<Rightarrow> seconds list \<Rightarrow> seconds option" where
  "next_beat_after_intro min_intro beats = find (\<lambda>b. min_intro \<le> b) beats"

text \<open>Lines 188--197, which compute the end of the intro a second time.\<close>

definition intro_end_time :: "seconds \<Rightarrow> seconds list \<Rightarrow> seconds \<Rightarrow> seconds" where
  "intro_end_time min_intro beats nb =
     (let valid_intro_beats = filter (\<lambda>b. min_intro \<le> b) beats;
          t = (if valid_intro_beats = [] then max min_intro nb else hd valid_intro_beats)
      in min t nb)"

text \<open>
  Lines 222--237: the main clips that load (\<open>broken\<close> is the set of clip files the video
  library cannot open); the intro clip alone when none does; and the order of traversal,
  forward or reversed, drawn once.
\<close>

definition load_clips :: "path set \<Rightarrow> path \<Rightarrow> path list \<Rightarrow> path list" where
  "load_clips broken intro_clip remaining_clips =
     (let clips = filter (\<lambda>p. p \<notin> broken) remaining_clips
      in if clips = [] then [intro_clip] else clips)"

definition clip_sequence :: "bool \<Rightarrow> path list \<Rightarrow> path list" where
  "clip_sequence forward clips = (if forward then clips else rev clips)"

text \<open>
  Lines 252--272: the loop over \<^verbatim>\<open>range(len(beats_after_intro) - 1)\<close>, with the running
  \<^verbatim>\<open>seq_index\<close>; it returns the segments it appended and the final index. With an empty
  clip sequence the modulo raises inside the \<^verbatim>\<open>try\<close> and the iteration is skipped.
\<close>

fun post_drop_segments :: "path list \<Rightarrow> nat \<Rightarrow> seconds list \<Rightarrow> segment list \<times> nat" where
  "post_drop_segments cs seq_index (b1 # b2 # bs) =
     (if cs = [] then post_drop_segments cs seq_index (b2 # bs)
      else
        (let (segs, k) = post_drop_segments cs (Suc seq_index) (b2 # bs)
         in (\<lparr>start_time = b1, end_time = b2, clip = cs ! (seq_index mod length cs)\<rparr> # segs, k)))"
| "post_drop_segments cs seq_index bs = ([], seq_index)"

text \<open>Lines 274--292: the final segment, from the last beat to the end of the audio.\<close>

definition final_segment :: "path list \<Rightarrow> nat \<Rightarrow> seconds list \<Rightarrow> seconds \<Rightarrow> segment list" where
  "final_segment cs seq_index beats_after_intro audio_duration =
     (if beats_after_intro \<noteq> [] \<and> last beats_after_intro < audio_duration \<and> cs \<noteq> []
      then [\<lparr>start_time = last beats_after_intro, end_time = audio_duration,
             clip = cs ! (seq_index mod length cs)\<rparr>]
      else [])"

text \<open>
  Lines 156--295: from the beat list to the list of segments that is handed to the
  renderer. \<open>min_intro\<close> is the module constant \<open>MIN_INTRO_DURATION\<close>, \<open>broken\<close> the set
  of clip files the video library cannot open, \<open>forward\<close> the draw of line 237.
\<close>

definition plan_segments ::
  "seconds \<Rightarrow> path \<Rightarrow> path list \<Rightarrow> path set \<Rightarrow> seconds list \<Rightarrow> seconds \<Rightarrow> bool
     \<Rightarrow> error + segment list" where
  "plan_segments min_intro intro_clip remaining_clips broken beats audio_duration forward =
     (if beats = [] then Inl NoBeatsError
      else
        (case next_beat_after_intro min_intro beats of
           None \<Rightarrow> Inl NoIntroBoundaryError
         | Some nb \<Rightarrow>
             if intro_clip \<in> broken then Inl (VideoLoadError intro_clip)
             else
               (let iet = intro_end_time min_intro beats nb;
                    intro = \<lparr>start_time = 0, end_time = iet, clip = intro_clip\<rparr>;
                    cs = clip_sequence forward (load_clips broken intro_clip remaining_clips);
                    beats_after_intro = filter (\<lambda>b. iet < b) beats;
                    (segs, k) = post_drop_segments cs 0 beats_after_intro;
                    segments = intro # segs @ final_segment cs k beats_after_intro audio_duration
                in if segments = [] then Inl NoSegmentsError else Inr segments)))"

text \<open>
  The whole function, from the clip folders on (line 145); the audio file has been found
  by then (lines 136--143). The environment holds what the function reads: the two folder
  listings, the clip files that do not load, the configuration file and the audio file's
  own beats, and the audio duration. \<open>intro_pick\<close> and \<open>forward\<close> are its two random
  draws. The result is the list of segments that line 301 concatenates.
\<close>

record env =
  goon_clips :: "path list"
  zeta_clips :: "path list"
  broken_clips :: "path set"
  config_file :: "config option"
  detected :: "seconds list \<times> labeled"
  audio_length :: seconds

definition create_beat_synchronized_video :: "env \<Rightarrow> nat \<Rightarrow> bool \<Rightarrow> error + segment list" where
  "create_beat_synchronized_video e intro_pick forward =
     (case select_clips (goon_clips e) (zeta_clips e) intro_pick of
        Inl err \<Rightarrow> Inl err
      | Inr (intro_clip, remaining_clips) \<Rightarrow>
          plan_segments MIN_INTRO_DURATION intro_clip remaining_clips (broken_clips e)
            (fst (detect_beats (config_file e) (detected e))) (audio_length e) forward)"

subsection \<open>The coverage invariant of the data model\<close>

text \<open>
  The specification's invariant on a list of segments, in its words: the first segment
  starts at 0, each segment's end is the next segment's start, and the last segment ends
  at the audio duration. \<open>no_overlap\<close> is the weaker statement that no segment is
  reversed and every segment ends before any later one starts. \<open>bounds\<close> forgets the
  clip of a segment.
\<close>

fun contiguous :: "segment list \<Rightarrow> bool" where
  "contiguous (s # t # rest) = (end_time s = start_time t \<and> contiguous (t # rest))"
| "contiguous segs = True"

definition contiguous_coverage :: "segment list \<Rightarrow> seconds \<Rightarrow> bool" where
  "contiguous_coverage segs audio_len =
     (segs \<noteq> [] \<and> start_time (hd segs) = 0 \<and> contiguous segs \<and> end_time (last segs) = audio_len)"

definition no_overlap :: "segment list \<Rightarrow> bool" where
  "no_overlap segs =
     (list_all (\<lambda>s. start_time s \<le> end_time s) segs \<and>
      sorted_wrt (\<lambda>s t. end_time s \<le> start_time t) segs)"

definition bounds :: "segment \<Rightarrow> seconds \<times> seconds" where
  "bounds s = (start_time s, end_time s)"

section \<open>Uploading: \<^verbatim>\<open>tiktok_uploader.py\<close>\<close>

subsection \<open>Strings, paths and files\<close>

text \<open>
  \<^verbatim>\<open>str.strip()\<close>, \<^verbatim>\<open>str.lower()\<close> and \<^verbatim>\<open>str.endswith\<close> on ASCII text, and the POSIX
  \<^verbatim>\<open>os.path.join\<close> of two components.
\<close>

definition whitespace :: "char \<Rightarrow> bool" where
  "whitespace c =
     (c \<in> set [CHR '' '', CHR 0x09, CHR 0x0A, CHR 0x0B, CHR 0x0C, CHR 0x0D,
               CHR 0x1C, CHR 0x1D, CHR 0x1E, CHR 0x1F])"

definition strip :: "string \<Rightarrow> string" where
  "strip s = rev (dropWhile whitespace (rev (dropWhile whitespace s)))"

definition lower_char :: "char \<Rightarrow> char" where
  "lower_char c =
     (case map_of (zip ''ABCDEFGHIJKLMNOPQRSTUVWXYZ'' ''abcdefghijklmnopqrstuvwxyz'') c of
        Some l \<Rightarrow> l
      | None \<Rightarrow> c)"

definition lower :: "string \<Rightarrow> string" where
  "lower s = map lower_char s"

definition endswith :: "string \<Rightarrow> string \<Rightarrow> bool" where
  "endswith s suffix =
     (length suffix \<le> length s \<and> drop (length s - length suffix) s = suffix)"

definition os_path_join :: "path \<Rightarrow> string \<Rightarrow> path" where
  "os_path_join a b =
     (if b \<noteq> [] \<and> hd b = CHR ''/'' then b
      else if a = [] \<or> last a = CHR ''/'' then a @ b
      else a @ ''/'' @ b)"

text \<open>
  The files of the machine, by path, each with its lines of text. Only the lines of the
  tracking file are ever read. \<^verbatim>\<open>open(f, "a")\<close> followed by one write appends a line and
  creates the file when it is missing; \<^verbatim>\<open>os.remove\<close> raises when the file is missing.
\<close>

type_synonym filesystem = "path \<rightharpoonup> string list"

definition append_line :: "path \<Rightarrow> string \<Rightarrow> filesystem \<Rightarrow> filesystem" where
  "append_line f l fs = fs(f \<mapsto> (case fs f of None \<Rightarrow> [] | Some ls \<Rightarrow> ls) @ [l])"

definition os_remove :: "path \<Rightarrow> filesystem \<Rightarrow> error + filesystem" where
  "os_remove p fs = (if fs p = None then Inl (FileNotFoundError p) else Inr (fs(p := None)))"

subsection \<open>The uploader\<close>

text \<open>
  The state the methods work on: the files, the two attributes \<^verbatim>\<open>self.tracking_file\<close>
  and \<^verbatim>\<open>self.uploaded_videos\<close>, and a log of the videos for which the upload page was
  requested (line 392), in order. The log is not in the source; it records what the browser
  was asked to upload.
\<close>

record world =
  files :: filesystem
  tracking_file :: path
  uploaded_videos :: "path set"
  attempts :: "path list"

text \<open>
  \<^verbatim>\<open>__init__\<close>, lines 57 and 66--69: the set of uploaded videos is read from the tracking
  file, each line stripped. (The captions directory it also creates plays no part here.)
\<close>

definition init :: "path \<Rightarrow> filesystem \<Rightarrow> world" where
  "init tracking fs =
     \<lparr>files = fs, tracking_file = tracking,
      uploaded_videos = (case fs tracking of None \<Rightarrow> {} | Some ls \<Rightarrow> set (map strip ls)),
      attempts = []\<rparr>"

text \<open>
  What the browser does with one upload decides which way \<^verbatim>\<open>_upload_single_video\<close>
  leaves its \<^verbatim>\<open>try\<close> block:
  \<^item> \<open>Posted\<close>: control reaches line 480 and the tracking file is written;
  \<^item> \<open>PostedUnrecorded\<close>: control reaches line 480, but opening the tracking file raises;
  \<^item> \<open>GaveUp\<close>: \<^verbatim>\<open>return False\<close> at line 414 or 460, after the retries;
  \<^item> \<open>Crashed\<close>: an exception reaches the handler of line 488.
\<close>

datatype browser_outcome = Posted | PostedUnrecorded | GaveUp | Crashed

text \<open>
  The method \<^verbatim>\<open>_upload_single_video\<close>, lines 384--497. The result is \<open>Inr\<close> of the
  returned boolean, or \<open>Inl\<close> of the exception that \<^verbatim>\<open>os.remove\<close> raised in the
  \<^verbatim>\<open>finally\<close> clause.
\<close>

definition priv_upload_single_video :: "browser_outcome \<Rightarrow> path \<Rightarrow> world \<Rightarrow> (error + bool) \<times> world" where
  "priv_upload_single_video outcome video_path w =
     (if files w video_path = None then (Inr False, w)
      else
        (let w1 = w\<lparr>attempts := attempts w @ [video_path]\<rparr>;
             (result, w2) =
               (case outcome of
                  Posted \<Rightarrow>
                    (True, w1\<lparr>uploaded_videos := insert video_path (uploaded_videos w1),
                               files := append_line (tracking_file w1) video_path (files w1)\<rparr>)
                | PostedUnrecorded \<Rightarrow>
                    (False, w1\<lparr>uploaded_videos := insert video_path (uploaded_videos w1)\<rparr>)
                | GaveUp \<Rightarrow> (False, w1)
                | Crashed \<Rightarrow> (False, w1))
         in (case os_remove video_path (files w2) of
               Inl e \<Rightarrow> (Inl e, w2)
             | Inr fs \<Rightarrow> (Inr result, w2\<lparr>files := fs\<rparr>))))"

text \<open>
  How a browser session starts: whether \<^verbatim>\<open>_setup_driver\<close> succeeds, whether cookies are
  configured and \<^verbatim>\<open>_load_cookies() and _verify_login()\<close> holds, and whether the manual
  login, tried when the cookies fail, succeeds. All three catch their own exceptions.
\<close>

record session =
  setup_driver :: bool
  cookie_login :: bool
  manual_login :: bool


text \<open>Lines 644--651: the videos of the directory that are not in the set.\<close>

definition is_video_name :: "string \<Rightarrow> bool" where
  "is_video_name file =
     (endswith (lower file) ''.mp4'' \<or> endswith (lower file) ''.mov'' \<or>
      endswith (lower file) ''.avi'')"

definition video_files :: "path \<Rightarrow> string list \<Rightarrow> path set \<Rightarrow> path list" where
  "video_files videos_dir listing uploaded =
     filter (\<lambda>file_path. file_path \<notin> uploaded)
       (map (os_path_join videos_dir) (filter is_video_name listing))"

text \<open>
  Lines 675--690: the loop over the videos, with the running count. \<open>browser\<close> tells what
  the browser does with each video. The delays between uploads are left out.
\<close>

fun upload_loop ::
  "(path \<Rightarrow> browser_outcome) \<Rightarrow> int option \<Rightarrow> int \<Rightarrow> path list \<Rightarrow> world \<Rightarrow> (error + int) \<times> world" where
  "upload_loop browser max_uploads uploads_count [] w = (Inr uploads_count, w)"
| "upload_loop browser max_uploads uploads_count (video # rest) w =
     (if (case max_uploads of None \<Rightarrow> False | Some m \<Rightarrow> m \<le> uploads_count)
      then (Inr uploads_count, w)
      else
        (case priv_upload_single_video (browser video) video w of
           (Inl e, w') \<Rightarrow> (Inl e, w')
         | (Inr success, w') \<Rightarrow>
             upload_loop browser max_uploads
               (if success then uploads_count + 1 else uploads_count) rest w'))"

text \<open>
  Lines 640--698. \<open>listing\<close> is \<^verbatim>\<open>os.listdir(videos_dir)\<close>, or \<open>None\<close> when the directory
  does not exist. An exception of the loop is caught at line 694.
\<close>

definition upload_multiple_videos ::
  "path \<Rightarrow> string list option \<Rightarrow> session \<Rightarrow> (path \<Rightarrow> browser_outcome) \<Rightarrow> int option \<Rightarrow> world
     \<Rightarrow> int \<times> world" where
  "upload_multiple_videos videos_dir listing s browser max_uploads w =
     (case listing of
        None \<Rightarrow> (0, w)
      | Some names \<Rightarrow>
          (let vf = video_files videos_dir names (uploaded_videos w)
           in if vf = [] then (0, w)
              else if \<not> setup_driver s then (0, w)
              else if \<not> cookie_login s \<and> \<not> manual_login s then (0, w)
              else
                (case upload_loop browser max_uploads 0 vf w of
                   (Inl e, w') \<Rightarrow> (0, w')
                 | (Inr uploads_count, w') \<Rightarrow> (uploads_count, w'))))"

section \<open>Properties of the planner\<close>

subsection \<open>An empty beat list\<close>

text \<open>
  C5. Whenever the beat list is empty the planner fails with the error of line 161 and
  returns no segments, whatever its other inputs are. The beats are detected at line 157,
  once a clip has been selected; so the whole function fails in this way whenever some
  clip folder is not empty and no beat is detected or configured.
\<close>

theorem empty_beats_fail:
  "plan_segments min_intro ic rc br [] ad fw = Inl NoBeatsError
   \<and> ((goon_clips e \<noteq> [] \<or> zeta_clips e \<noteq> []) \<and>
        fst (detect_beats (config_file e) (detected e)) = [] \<longrightarrow>
        create_beat_synchronized_video e intro_pick forward = Inl NoBeatsError)"
  by (auto simp: plan_segments_def create_beat_synchronized_video_def select_clips_def)

theorem empty_beats_fail_witness:
  "plan_segments 2 ''intro.mp4'' [''a.mp4''] {} [] 10 True = Inl NoBeatsError
   \<and> create_beat_synchronized_video
       \<lparr>goon_clips = [''intro.mp4''], zeta_clips = [''a.mp4''], broken_clips = {},
        config_file = Some \<lparr>cfg_labeled_beats = Some [], cfg_beats = Some [1, 3]\<rparr>,
        detected = ([1, 3], []), audio_length = 10\<rparr> 0 True = Inl NoBeatsError"
  using empty_beats_fail [of 2 "''intro.mp4''" "[''a.mp4'']" "{}" 10 True
      "\<lparr>goon_clips = [''intro.mp4''], zeta_clips = [''a.mp4''], broken_clips = {},
        config_file = Some \<lparr>cfg_labeled_beats = Some [], cfg_beats = Some [1, 3]\<rparr>,
        detected = ([1, 3], []), audio_length = 10\<rparr>" 0 True]
  by (simp add: detect_beats_def)

subsection \<open>The intro boundary and the closed form of the plan\<close>

lemma find_filter_hd:
  "find P xs = Some x \<Longrightarrow> filter P xs \<noteq> [] \<and> hd (filter P xs) = x"
  by (induction xs) (auto split: if_splits)

lemma intro_end_time_next:
  "next_beat_after_intro min_intro beats = Some nb \<Longrightarrow> intro_end_time min_intro beats nb = nb"
  using find_filter_hd [of "\<lambda>b. min_intro \<le> b" beats nb]
  by (simp add: next_beat_after_intro_def intro_end_time_def Let_def)

lemma load_clips_nonempty: "load_clips br ic rc \<noteq> []"
  by (simp add: load_clips_def Let_def)

lemma clip_sequence_nonempty: "clip_sequence fw (load_clips br ic rc) \<noteq> []"
  by (simp add: clip_sequence_def load_clips_nonempty)

lemma post_drop_segments_closed:
  "cs \<noteq> [] \<Longrightarrow>
   post_drop_segments cs k bs =
     (map (\<lambda>i. \<lparr>start_time = bs ! i, end_time = bs ! Suc i, clip = cs ! ((k + i) mod length cs)\<rparr>)
        [0..<length bs - 1],
      k + (length bs - 1))"
proof (induction cs k bs rule: post_drop_segments.induct)
  case (1 cs seq_index b1 b2 bs)
  then show ?case
    by (simp add: map_upt_Suc del: upt_Suc)
qed simp_all

lemma first_beat_found:
  "beats = pre @ ib # post \<Longrightarrow> \<forall>x\<in>set pre. x < min_intro \<Longrightarrow> min_intro \<le> ib \<Longrightarrow>
   next_beat_after_intro min_intro beats = Some ib"
  unfolding next_beat_after_intro_def
  by (induction pre arbitrary: beats) auto

lemma no_beat_found:
  "(next_beat_after_intro min_intro beats = None) = (\<forall>b\<in>set beats. b < min_intro)"
  unfolding next_beat_after_intro_def
  by (auto simp: find_None_iff not_le)

lemma plan_segments_found:
  assumes "next_beat_after_intro min_intro beats = Some nb"
  shows "plan_segments min_intro ic rc br beats ad fw =
     (if ic \<notin> br then
        Inr (\<lparr>start_time = 0, end_time = nb, clip = ic\<rparr> #
             fst (post_drop_segments (clip_sequence fw (load_clips br ic rc)) 0
                    (filter (\<lambda>b. nb < b) beats)) @
             final_segment (clip_sequence fw (load_clips br ic rc))
               (snd (post_drop_segments (clip_sequence fw (load_clips br ic rc)) 0
                       (filter (\<lambda>b. nb < b) beats)))
               (filter (\<lambda>b. nb < b) beats) ad)
      else Inl (VideoLoadError ic))"
proof -
  have "beats \<noteq> []"
    using assms by (auto simp: next_beat_after_intro_def)
  then show ?thesis
    using assms intro_end_time_next [OF assms]
    by (simp add: plan_segments_def Let_def split: prod.splits)
qed

lemma plan_segments_closed:
  assumes "next_beat_after_intro min_intro beats = Some nb"
  shows "plan_segments min_intro ic rc br beats ad fw =
     (if ic \<notin> br then
        Inr (let tail = filter (\<lambda>b. nb < b) beats;
                 cs = clip_sequence fw (load_clips br ic rc)
             in \<lparr>start_time = 0, end_time = nb, clip = ic\<rparr> #
                map (\<lambda>i. \<lparr>start_time = tail ! i, end_time = tail ! Suc i,
                           clip = cs ! (i mod length cs)\<rparr>) [0..<length tail - 1] @
                (if tail \<noteq> [] \<and> last tail < ad
                 then [\<lparr>start_time = last tail, end_time = ad,
                        clip = cs ! ((length tail - 1) mod length cs)\<rparr>]
                 else []))
      else Inl (VideoLoadError ic))"
  by (simp add: plan_segments_found [OF assms] Let_def final_segment_def
      post_drop_segments_closed [OF clip_sequence_nonempty] clip_sequence_nonempty)

text \<open>
  C2. Let the first beat that is at least \<open>min_intro\<close> be the intro boundary \<open>ib\<close>, and let
  \<open>tail\<close> be the beats strictly greater than it. Unless the intro clip fails to load, the
  planner returns the intro segment, then for each consecutive pair of \<open>tail\<close> the segment
  from \<open>tail ! i\<close> to \<open>tail ! Suc i\<close> cut from clip \<open>i mod length cs\<close> of the clip sequence,
  then, if \<open>tail\<close> is not empty and its last beat is before the end of the audio, a final
  segment from that beat to the end of the audio, cut from the next clip of the round
  robin; and nothing else.
\<close>

theorem round_robin_segments:
  assumes "beats = pre @ ib # post" and "\<forall>x\<in>set pre. x < min_intro" and "min_intro \<le> ib"
  shows "plan_segments min_intro ic rc br beats ad fw =
     (if ic \<notin> br then
        Inr (let tail = filter (\<lambda>b. ib < b) beats;
                 cs = clip_sequence fw (load_clips br ic rc)
             in \<lparr>start_time = 0, end_time = ib, clip = ic\<rparr> #
                map (\<lambda>i. \<lparr>start_time = tail ! i, end_time = tail ! Suc i,
                           clip = cs ! (i mod length cs)\<rparr>) [0..<length tail - 1] @
                (if tail \<noteq> [] \<and> last tail < ad
                 then [\<lparr>start_time = last tail, end_time = ad,
                        clip = cs ! ((length tail - 1) mod length cs)\<rparr>]
                 else []))
      else Inl (VideoLoadError ic))"
  by (rule plan_segments_closed [OF first_beat_found [OF assms]])

lemma errors_distinct:
  "NoIntroBoundaryError \<noteq> NoBeatsError" "NoIntroBoundaryError \<noteq> VideoLoadError p"
  "EmptyClipPoolError \<noteq> NoBeatsError" "EmptyClipPoolError \<noteq> NoIntroBoundaryError"
  "EmptyClipPoolError \<noteq> VideoLoadError p" "EmptyClipPoolError \<noteq> NoSegmentsError"
  "VideoLoadError p \<noteq> NoIntroBoundaryError" "VideoLoadError p \<noteq> EmptyClipPoolError"
  "NoBeatsError \<noteq> EmptyClipPoolError" "NoIntroBoundaryError \<noteq> EmptyClipPoolError"
  "NoSegmentsError \<noteq> EmptyClipPoolError"
  by (simp_all add: NoIntroBoundaryError_def NoBeatsError_def EmptyClipPoolError_def NoSegmentsError_def)

text \<open>An instance: five beats, three main clips of which one does not load, reversed order.\<close>

theorem round_robin_segments_witness:
  "[1/2, 2, 4, 7, 8] = [1/2] @ (2::real) # [4, 7, 8] \<and>
   plan_segments 2 ''intro.mp4'' [''a.mp4'', ''b.mp4'', ''c.mp4''] {''b.mp4''}
      [1/2, 2, 4, 7, 8] 12 False =
     Inr [\<lparr>start_time = 0, end_time = 2, clip = ''intro.mp4''\<rparr>,
          \<lparr>start_time = 4, end_time = 7, clip = ''c.mp4''\<rparr>,
          \<lparr>start_time = 7, end_time = 8, clip = ''a.mp4''\<rparr>,
          \<lparr>start_time = 8, end_time = 12, clip = ''c.mp4''\<rparr>]"
  using round_robin_segments [of "[1/2, 2, 4, 7, 8]" "[1/2]" 2 "[4, 7, 8]" 2 "''intro.mp4''"
      "[''a.mp4'', ''b.mp4'', ''c.mp4'']" "{''b.mp4''}" 12 False]
  by (simp add: clip_sequence_def load_clips_def upt_rec)

text \<open>
  C3. For a non-empty beat list the planner fails with the error of line 167 exactly when
  no beat is at least \<open>min_intro\<close>; otherwise the boundary it chooses, at line 164 and
  again at lines 188--197, is the first beat that is at least \<open>min_intro\<close>, and the intro
  segment of the plan ends there.
\<close>

theorem intro_boundary:
  assumes "beats \<noteq> []"
  shows "(plan_segments min_intro ic rc br beats ad fw = Inl NoIntroBoundaryError
            \<longleftrightarrow> (\<forall>b\<in>set beats. b < min_intro))
       \<and> (\<forall>pre ib post. beats = pre @ ib # post \<and> (\<forall>x\<in>set pre. x < min_intro) \<and> min_intro \<le> ib
            \<longrightarrow> next_beat_after_intro min_intro beats = Some ib
              \<and> intro_end_time min_intro beats ib = ib
              \<and> (ic \<notin> br \<longrightarrow> (\<exists>segs. plan_segments min_intro ic rc br beats ad fw =
                      Inr (\<lparr>start_time = 0, end_time = ib, clip = ic\<rparr> # segs))))"
proof (intro conjI allI impI)
  show "plan_segments min_intro ic rc br beats ad fw = Inl NoIntroBoundaryError
            \<longleftrightarrow> (\<forall>b\<in>set beats. b < min_intro)"
  proof (cases "next_beat_after_intro min_intro beats")
    case None
    then show ?thesis
      using assms no_beat_found [of min_intro beats] by (simp add: plan_segments_def)
  next
    case (Some nb)
    then show ?thesis
      using no_beat_found [of min_intro beats]
      by (simp add: plan_segments_found [OF Some] errors_distinct)
  qed
next
  fix pre ib post
  assume h: "beats = pre @ ib # post \<and> (\<forall>x\<in>set pre. x < min_intro) \<and> min_intro \<le> ib"
  then show f: "next_beat_after_intro min_intro beats = Some ib"
    by (simp add: first_beat_found)
  then show "intro_end_time min_intro beats ib = ib"
    by (rule intro_end_time_next)
  assume "ic \<notin> br"
  then show "\<exists>segs. plan_segments min_intro ic rc br beats ad fw =
                      Inr (\<lparr>start_time = 0, end_time = ib, clip = ic\<rparr> # segs)"
    by (simp add: plan_segments_found [OF f])
qed

text \<open>The specification's example \<open>beats = [5]\<close>, \<open>min_intro = 10\<close>, and a list with a boundary.\<close>

theorem intro_boundary_witness:
  "[5::real] \<noteq> [] \<and>
   plan_segments 10 ''intro.mp4'' [''a.mp4''] {} [5] 60 True = Inl NoIntroBoundaryError \<and>
   next_beat_after_intro 2 [1, 3, 6, 9] = Some 3 \<and>
   intro_end_time 2 [1, 3, 6, 9] 3 = 3"
proof -
  have single: "[5::real] \<noteq> []" and four: "[1, 3, 6, 9 :: real] \<noteq> []"
    by simp_all
  show ?thesis
    using intro_boundary [OF single, of 10 "''intro.mp4''" "[''a.mp4'']" "{}" 60 True]
      intro_boundary [OF four, of 2 "''intro.mp4''" "[''a.mp4'']" "{}" 10 True,
        THEN conjunct2, rule_format, of "[1]" 3 "[6, 9]"]
    by simp
qed

subsection \<open>Coverage\<close>

lemma sorted_le_last: "sorted_wrt (<) (xs :: real list) \<Longrightarrow> x \<in> set xs \<Longrightarrow> x \<le> last xs"
  by (induction xs) (auto simp: less_imp_le)

lemma fst_post_drop_Cons:
  "cs \<noteq> [] \<Longrightarrow> fst (post_drop_segments cs k (b1 # b2 # bs)) =
     \<lparr>start_time = b1, end_time = b2, clip = cs ! (k mod length cs)\<rparr> #
     fst (post_drop_segments cs (Suc k) (b2 # bs))"
  by (simp split: prod.splits)

lemma post_drop_segments_spans:
  "cs \<noteq> [] \<Longrightarrow> sorted_wrt (<) bs \<Longrightarrow> s \<in> set (fst (post_drop_segments cs k bs)) \<Longrightarrow>
     hd bs \<le> start_time s \<and> start_time s \<le> end_time s \<and> end_time s \<le> last bs"
proof (induction cs k bs rule: post_drop_segments.induct)
  case (1 cs seq_index b1 b2 bs)
  from "1.prems" have b12: "b1 < b2" and sorted_tl: "sorted_wrt (<) (b2 # bs)"
    by simp_all
  from "1.prems" consider
      (first) "s = \<lparr>start_time = b1, end_time = b2, clip = cs ! (seq_index mod length cs)\<rparr>"
    | (later) "s \<in> set (fst (post_drop_segments cs (Suc seq_index) (b2 # bs)))"
    by (auto simp: fst_post_drop_Cons simp del: post_drop_segments.simps)
  then show ?case
  proof cases
    case first
    then show ?thesis
      using b12 sorted_le_last [OF sorted_tl, of b2] by simp
  next
    case later
    then show ?thesis
      using "1.IH"(2) [OF "1.prems"(1) "1.prems"(1) sorted_tl] b12 by simp
  qed
qed simp_all

lemma post_drop_segments_sorted:
  "cs \<noteq> [] \<Longrightarrow> sorted_wrt (<) bs \<Longrightarrow>
     sorted_wrt (\<lambda>s t. end_time s \<le> start_time t) (fst (post_drop_segments cs k bs))"
proof (induction cs k bs rule: post_drop_segments.induct)
  case (1 cs seq_index b1 b2 bs)
  from "1.prems" have sorted_tl: "sorted_wrt (<) (b2 # bs)"
    by simp
  show ?case
    using "1.IH"(2) [OF "1.prems"(1) "1.prems"(1) sorted_tl]
      post_drop_segments_spans [OF "1.prems"(1) sorted_tl, of _ "Suc seq_index"]
    by (simp add: fst_post_drop_Cons [OF "1.prems"(1)] del: post_drop_segments.simps)
qed simp_all

lemma post_drop_segments_last:
  "cs \<noteq> [] \<Longrightarrow> fst (post_drop_segments cs k bs) \<noteq> [] \<Longrightarrow>
     end_time (last (fst (post_drop_segments cs k bs))) = last bs"
proof (induction cs k bs rule: post_drop_segments.induct)
  case (1 cs seq_index b1 b2 bs)
  show ?case
  proof (cases bs)
    case Nil
    then show ?thesis using "1.prems" by simp
  next
    case (Cons b3 rest)
    then have "fst (post_drop_segments cs (Suc seq_index) (b2 # bs)) \<noteq> []"
      using "1.prems"(1) by (simp split: prod.splits)
    then show ?thesis
      using "1.IH"(2) [OF "1.prems"(1) "1.prems"(1)] "1.prems"(1)
      by (simp add: fst_post_drop_Cons del: post_drop_segments.simps)
  qed
qed simp_all

lemma post_drop_segments_contiguous:
  "cs \<noteq> [] \<Longrightarrow> contiguous (fst (post_drop_segments cs k bs))"
proof (induction cs k bs rule: post_drop_segments.induct)
  case (1 cs seq_index b1 b2 bs)
  show ?case
  proof (cases bs)
    case Nil
    then show ?thesis using "1.prems" by simp
  next
    case (Cons b3 rest)
    then show ?thesis
      using "1.IH"(2) [OF "1.prems" "1.prems"] "1.prems"
      by (simp split: prod.splits)
  qed
qed simp_all

lemma contiguous_append:
  "contiguous xs \<Longrightarrow> contiguous ys \<Longrightarrow>
   (xs \<noteq> [] \<and> ys \<noteq> [] \<longrightarrow> end_time (last xs) = start_time (hd ys)) \<Longrightarrow> contiguous (xs @ ys)"
proof (induction xs rule: contiguous.induct)
  case (1 s t rest)
  then show ?case by simp
qed (cases ys; simp)+

lemma last_filter_pred: "xs \<noteq> [] \<Longrightarrow> P (last xs) \<Longrightarrow> last (filter P xs) = last xs"
  by (induction xs) (auto simp: filter_empty_conv split: if_splits)

lemma last_beats_after:
  assumes "sorted_wrt (<) (beats :: real list)" and "filter (\<lambda>b. nb < b) beats \<noteq> []"
  shows "last (filter (\<lambda>b. nb < b) beats) = last beats"
proof -
  from assms(2) obtain b where b: "b \<in> set beats" "nb < b"
    by (auto simp: filter_empty_conv)
  then have "nb < last beats"
    using sorted_le_last [OF assms(1), of b] by simp
  moreover have "beats \<noteq> []" using b by auto
  ultimately show ?thesis by (simp add: last_filter_pred)
qed

lemma next_beat_found_ge:
  "next_beat_after_intro min_intro beats = Some nb \<Longrightarrow> min_intro \<le> nb \<and> nb \<in> set beats"
  unfolding next_beat_after_intro_def
  by (induction beats) (auto split: if_splits)

lemma plan_segments_success:
  assumes "plan_segments min_intro ic rc br beats ad fw = Inr segs"
  obtains nb where "next_beat_after_intro min_intro beats = Some nb" and "ic \<notin> br"
proof (cases "next_beat_after_intro min_intro beats")
  case None
  then show ?thesis
    using assms by (simp add: plan_segments_def split: if_splits)
next
  case (Some nb)
  then show ?thesis
    using assms that by (simp add: plan_segments_found [OF Some] split: if_splits)
qed

text \<open>
  C1, as amended. For a strictly increasing beat list and \<open>0 \<le> min_intro\<close>, a plan the
  planner returns starts with the intro segment, which runs from 0 to the intro boundary;
  the segments after the intro are contiguous with one another; no segment is reversed
  and none overlaps a later one; and when some beat lies after the intro boundary and the
  last beat is before the end of the audio, the last segment ends at the audio duration.
  Nothing is said about the junction between the intro segment and the segment after it.
\<close>

theorem segments_after_intro_contiguous:
  assumes plan: "plan_segments min_intro ic rc br beats ad fw = Inr segs"
      and increasing: "sorted_wrt (<) beats"
      and min_intro: "0 \<le> min_intro"
  shows "segs \<noteq> [] \<and> start_time (hd segs) = 0
       \<and> next_beat_after_intro min_intro beats = Some (end_time (hd segs))
       \<and> contiguous (tl segs)
       \<and> no_overlap segs
       \<and> ((\<exists>b\<in>set beats. end_time (hd segs) < b) \<and> last beats < ad
             \<longrightarrow> end_time (last segs) = ad)"
proof -
  from plan obtain nb where nb: "next_beat_after_intro min_intro beats = Some nb" and "ic \<notin> br"
    by (rule plan_segments_success)
  define cs where "cs = clip_sequence fw (load_clips br ic rc)"
  define tail where "tail = filter (\<lambda>b. nb < b) beats"
  define P where "P = fst (post_drop_segments cs 0 tail)"
  define F where "F = final_segment cs (snd (post_drop_segments cs 0 tail)) tail ad"
  have cs: "cs \<noteq> []"
    by (simp add: cs_def clip_sequence_nonempty)
  have segs: "segs = \<lparr>start_time = 0, end_time = nb, clip = ic\<rparr> # P @ F"
    using plan \<open>ic \<notin> br\<close> by (simp add: plan_segments_found [OF nb] cs_def tail_def P_def F_def)
  have tail_sorted: "sorted_wrt (<) tail"
    using increasing by (simp add: tail_def sorted_wrt_filter)
  have tail_after: "nb < b" if "b \<in> set tail" for b
    using that by (simp add: tail_def)
  have F_cases: "F = [] \<or> (tail \<noteq> [] \<and> last tail < ad \<and>
      (\<exists>c. F = [\<lparr>start_time = last tail, end_time = ad, clip = c\<rparr>]))"
    by (simp add: F_def final_segment_def)
  have P_span: "hd tail \<le> start_time s \<and> start_time s \<le> end_time s \<and> end_time s \<le> last tail"
    if "s \<in> set P" for s
    using that post_drop_segments_spans [OF cs tail_sorted] by (simp add: P_def)
  have P_tail: "tail \<noteq> []" if "s \<in> set P" for s
    using that by (cases tail) (auto simp: P_def)
  have P_after: "nb \<le> start_time s" if "s \<in> set P" for s
  proof -
    have "nb < hd tail"
      using P_tail [OF that] tail_after by simp
    then show ?thesis using P_span [OF that] by simp
  qed
  have last_after: "nb < last tail" if "tail \<noteq> []"
    using that tail_after by simp
  have contiguous_tail: "contiguous (P @ F)"
  proof (rule contiguous_append)
    show "contiguous P"
      by (simp add: P_def post_drop_segments_contiguous [OF cs])
    show "contiguous F"
      using F_cases by auto
    show "P \<noteq> [] \<and> F \<noteq> [] \<longrightarrow> end_time (last P) = start_time (hd F)"
      using F_cases post_drop_segments_last [OF cs, of 0 tail] by (auto simp: P_def)
  qed
  have spans: "list_all (\<lambda>s. start_time s \<le> end_time s) segs"
    using F_cases P_span next_beat_found_ge [OF nb] min_intro
    by (auto simp: segs list_all_iff)
  have ordered: "sorted_wrt (\<lambda>s t. end_time s \<le> start_time t) segs"
    using F_cases P_span P_after last_after post_drop_segments_sorted [OF cs tail_sorted, of 0]
    by (auto simp: segs sorted_wrt_append P_def [symmetric])
  have final: "end_time (last segs) = ad" if "\<exists>b\<in>set beats. nb < b" and "last beats < ad"
  proof -
    have "tail \<noteq> []"
      using that(1) by (auto simp: tail_def filter_empty_conv)
    moreover have "last tail < ad"
      using last_beats_after [OF increasing, of nb] \<open>tail \<noteq> []\<close> that(2) by (simp add: tail_def)
    ultimately have "\<exists>c. F = [\<lparr>start_time = last tail, end_time = ad, clip = c\<rparr>]"
      using cs by (simp add: F_def final_segment_def)
    then show ?thesis by (auto simp: segs)
  qed
  show ?thesis
    using contiguous_tail spans ordered final nb
    by (simp add: segs no_overlap_def)
qed

text \<open>The definitions that evaluate a plan on given inputs.\<close>

lemmas plan_eval =
  plan_segments_def next_beat_after_intro_def intro_end_time_def load_clips_def
  clip_sequence_def final_segment_def

text \<open>
  C1 as stated fails: on the strictly increasing beats 1, 3, 6, 12 with ten seconds of
  audio the plan has the intro from 0 to 3 and one segment from 6 to 12. The intro does
  not end where the next segment starts, and the last segment does not end at 10.
\<close>

theorem contiguous_coverage_counterexample:
  "sorted_wrt (<) [1, 3, 6, 12 :: real] \<and> (0::real) < 10 \<and> (0::real) \<le> 2 \<and>
   plan_segments 2 ''intro.mp4'' [''a.mp4'', ''b.mp4''] {} [1, 3, 6, 12] 10 True =
     Inr [\<lparr>start_time = 0, end_time = 3, clip = ''intro.mp4''\<rparr>,
          \<lparr>start_time = 6, end_time = 12, clip = ''a.mp4''\<rparr>] \<and>
   \<not> contiguous [\<lparr>start_time = 0, end_time = 3, clip = ''intro.mp4''\<rparr>,
                  \<lparr>start_time = 6, end_time = 12, clip = ''a.mp4''\<rparr>] \<and>
   \<not> contiguous_coverage [\<lparr>start_time = 0, end_time = 3, clip = ''intro.mp4''\<rparr>,
                  \<lparr>start_time = 6, end_time = 12, clip = ''a.mp4''\<rparr>] 10"
  by (simp add: plan_eval contiguous_coverage_def)

text \<open>An instance of the amended statement, on the beats 1, 3, 6, 9.\<close>

theorem segments_after_intro_contiguous_witness:
  "plan_segments 2 ''intro.mp4'' [''a.mp4'', ''b.mp4''] {} [1, 3, 6, 9] 10 False =
     Inr [\<lparr>start_time = 0, end_time = 3, clip = ''intro.mp4''\<rparr>,
          \<lparr>start_time = 6, end_time = 9, clip = ''b.mp4''\<rparr>,
          \<lparr>start_time = 9, end_time = 10, clip = ''a.mp4''\<rparr>] \<and>
   sorted_wrt (<) [1, 3, 6, 9 :: real] \<and> (0::real) \<le> 2 \<and>
   contiguous [\<lparr>start_time = 6, end_time = 9, clip = ''b.mp4''\<rparr>,
               \<lparr>start_time = 9, end_time = 10, clip = ''a.mp4''\<rparr>] \<and>
   no_overlap [\<lparr>start_time = 0, end_time = 3, clip = ''intro.mp4''\<rparr>,
          \<lparr>start_time = 6, end_time = 9, clip = ''b.mp4''\<rparr>,
          \<lparr>start_time = 9, end_time = 10, clip = ''a.mp4''\<rparr>] \<and>
   end_time (last [\<lparr>start_time = 0, end_time = 3, clip = ''intro.mp4''\<rparr>,
          \<lparr>start_time = 6, end_time = 9, clip = ''b.mp4''\<rparr>,
          \<lparr>start_time = 9, end_time = 10, clip = ''a.mp4''\<rparr>]) = 10"
proof -
  have plan: "plan_segments 2 ''intro.mp4'' [''a.mp4'', ''b.mp4''] {} [1, 3, 6, 9] 10 False =
     Inr [\<lparr>start_time = 0, end_time = 3, clip = ''intro.mp4''\<rparr>,
          \<lparr>start_time = 6, end_time = 9, clip = ''b.mp4''\<rparr>,
          \<lparr>start_time = 9, end_time = 10, clip = ''a.mp4''\<rparr>]"
    by (simp add: plan_eval)
  have increasing: "sorted_wrt (<) [1, 3, 6, 9 :: real]" and min_intro: "(0::real) \<le> 2"
    by simp_all
  show ?thesis
    using segments_after_intro_contiguous [OF plan increasing min_intro] plan
    by simp
qed

text \<open>
  C4. On the specification's example (beats 1, 3, 6, 9, ten seconds of audio, a minimum
  intro of 2, two clips, forward order) the intro boundary is 3 and the planner returns
  three segments: the intro from 0 to 3, clip 0 from 6 to 9 and clip 1 from 9 to 10. The
  span from 3 to 6 is not planned, since line 245 keeps only the beats strictly after the
  intro boundary as segment starts.
\<close>

theorem spec_example_plan:
  "MIN_INTRO_DURATION = 2 \<and>
   next_beat_after_intro MIN_INTRO_DURATION [1, 3, 6, 9] = Some 3 \<and>
   plan_segments MIN_INTRO_DURATION ''intro'' [''clip0'', ''clip1''] {} [1, 3, 6, 9] 10 True =
     Inr [\<lparr>start_time = 0, end_time = 3, clip = ''intro''\<rparr>,
          \<lparr>start_time = 6, end_time = 9, clip = ''clip0''\<rparr>,
          \<lparr>start_time = 9, end_time = 10, clip = ''clip1''\<rparr>]"
  by (simp add: MIN_INTRO_DURATION_def plan_eval)

subsection \<open>The clip pool\<close>

lemma plan_segments_not_pool_error:
  "plan_segments min_intro ic rc br beats ad fw \<noteq> Inl EmptyClipPoolError"
proof (cases "next_beat_after_intro min_intro beats")
  case None
  then show ?thesis
    by (simp add: plan_segments_def errors_distinct)
next
  case (Some nb)
  then show ?thesis
    by (simp add: plan_segments_found [OF Some] errors_distinct)
qed

lemma plan_segments_intro_only:
  assumes "next_beat_after_intro min_intro beats = Some nb"
      and "filter (\<lambda>p. p \<notin> br) rc = []" and "ic \<notin> br"
  shows "plan_segments min_intro ic rc br beats ad fw =
     Inr (let tail = filter (\<lambda>b. nb < b) beats
          in \<lparr>start_time = 0, end_time = nb, clip = ic\<rparr> #
             map (\<lambda>i. \<lparr>start_time = tail ! i, end_time = tail ! Suc i, clip = ic\<rparr>)
               [0..<length tail - 1] @
             (if tail \<noteq> [] \<and> last tail < ad
              then [\<lparr>start_time = last tail, end_time = ad, clip = ic\<rparr>]
              else []))"
proof -
  have cs: "clip_sequence fw (load_clips br ic rc) = [ic]"
    using assms(2) by (simp add: clip_sequence_def load_clips_def)
  show ?thesis
    using assms(3) by (simp add: plan_segments_closed [OF assms(1)] cs Let_def)
qed

text \<open>
  C6, as amended. The function fails with the error of line 150 exactly when both clip
  folders are empty. When the intro folder has a clip, no main clip is there or loads,
  and the intro clip that is drawn loads, the function does not fail for lack of clips:
  on a beat list with an intro boundary \<open>ib\<close> it returns the intro segment, one segment
  for each consecutive pair of the beats after \<open>ib\<close> and the guarded final segment, every
  one of them cut from the intro clip (lines 232--234).
\<close>

theorem empty_clip_pool:
  "(create_beat_synchronized_video e intro_pick fw = Inl EmptyClipPoolError
      \<longleftrightarrow> goon_clips e = [] \<and> zeta_clips e = [])
   \<and> (goon_clips e \<noteq> [] \<and> filter (\<lambda>p. p \<notin> broken_clips e) (zeta_clips e) = [] \<and>
       random_choice (goon_clips e) intro_pick \<notin> broken_clips e \<and>
       fst (detect_beats (config_file e) (detected e)) = pre @ ib # post \<and>
       (\<forall>x\<in>set pre. x < MIN_INTRO_DURATION) \<and> MIN_INTRO_DURATION \<le> ib \<longrightarrow>
        create_beat_synchronized_video e intro_pick fw =
          Inr (let ic = random_choice (goon_clips e) intro_pick;
                   tail = filter (\<lambda>b. ib < b) (fst (detect_beats (config_file e) (detected e)))
               in \<lparr>start_time = 0, end_time = ib, clip = ic\<rparr> #
                  map (\<lambda>i. \<lparr>start_time = tail ! i, end_time = tail ! Suc i, clip = ic\<rparr>)
                    [0..<length tail - 1] @
                  (if tail \<noteq> [] \<and> last tail < audio_length e
                   then [\<lparr>start_time = last tail, end_time = audio_length e, clip = ic\<rparr>]
                   else [])))"
proof (intro conjI impI)
  show "create_beat_synchronized_video e intro_pick fw = Inl EmptyClipPoolError
      \<longleftrightarrow> goon_clips e = [] \<and> zeta_clips e = []"
    by (simp add: create_beat_synchronized_video_def select_clips_def plan_segments_not_pool_error)
next
  assume h: "goon_clips e \<noteq> [] \<and> filter (\<lambda>p. p \<notin> broken_clips e) (zeta_clips e) = [] \<and>
       random_choice (goon_clips e) intro_pick \<notin> broken_clips e \<and>
       fst (detect_beats (config_file e) (detected e)) = pre @ ib # post \<and>
       (\<forall>x\<in>set pre. x < MIN_INTRO_DURATION) \<and> MIN_INTRO_DURATION \<le> ib"
  then have nb: "next_beat_after_intro MIN_INTRO_DURATION
      (fst (detect_beats (config_file e) (detected e))) = Some ib"
    by (simp add: first_beat_found)
  show "create_beat_synchronized_video e intro_pick fw =
          Inr (let ic = random_choice (goon_clips e) intro_pick;
                   tail = filter (\<lambda>b. ib < b) (fst (detect_beats (config_file e) (detected e)))
               in \<lparr>start_time = 0, end_time = ib, clip = ic\<rparr> #
                  map (\<lambda>i. \<lparr>start_time = tail ! i, end_time = tail ! Suc i, clip = ic\<rparr>)
                    [0..<length tail - 1] @
                  (if tail \<noteq> [] \<and> last tail < audio_length e
                   then [\<lparr>start_time = last tail, end_time = audio_length e, clip = ic\<rparr>]
                   else []))"
    using h plan_segments_intro_only [OF nb, of "broken_clips e" "zeta_clips e"
        "random_choice (goon_clips e) intro_pick" "audio_length e" fw]
    by (simp add: create_beat_synchronized_video_def select_clips_def Let_def)
qed

text \<open>
  C6 as stated fails: with an empty main folder and one intro clip the function returns
  a plan of three segments.
\<close>

theorem empty_clip_pool_counterexample:
  "zeta_clips \<lparr>goon_clips = [''intro.mp4''], zeta_clips = [], broken_clips = {},
           config_file = Some \<lparr>cfg_labeled_beats = None, cfg_beats = Some [1, 3, 6, 9]\<rparr>,
           detected = ([], []), audio_length = 10\<rparr> = [] \<and>
   create_beat_synchronized_video
      \<lparr>goon_clips = [''intro.mp4''], zeta_clips = [], broken_clips = {},
           config_file = Some \<lparr>cfg_labeled_beats = None, cfg_beats = Some [1, 3, 6, 9]\<rparr>,
           detected = ([], []), audio_length = 10\<rparr> 0 True =
     Inr [\<lparr>start_time = 0, end_time = 3, clip = ''intro.mp4''\<rparr>,
          \<lparr>start_time = 6, end_time = 9, clip = ''intro.mp4''\<rparr>,
          \<lparr>start_time = 9, end_time = 10, clip = ''intro.mp4''\<rparr>]"
  by (simp add: create_beat_synchronized_video_def MIN_INTRO_DURATION_def select_clips_def
      random_choice_def detect_beats_def plan_eval)

text \<open>Instances: no clip at all, and an intro clip with a main clip that does not load.\<close>

theorem empty_clip_pool_witness:
  "create_beat_synchronized_video
     \<lparr>goon_clips = [], zeta_clips = [], broken_clips = {},
      config_file = None, detected = ([1, 3, 6, 9], []), audio_length = 10\<rparr> 0 True =
     Inl EmptyClipPoolError
   \<and> create_beat_synchronized_video
     \<lparr>goon_clips = [''intro.mp4''], zeta_clips = [''a.mp4''], broken_clips = {''a.mp4''},
      config_file = None, detected = ([1, 3, 6, 9], []), audio_length = 10\<rparr> 0 True =
     Inr [\<lparr>start_time = 0, end_time = 3, clip = ''intro.mp4''\<rparr>,
          \<lparr>start_time = 6, end_time = 9, clip = ''intro.mp4''\<rparr>,
          \<lparr>start_time = 9, end_time = 10, clip = ''intro.mp4''\<rparr>]"
  using empty_clip_pool
      [of "\<lparr>goon_clips = [], zeta_clips = [], broken_clips = {},
        config_file = None, detected = ([1, 3, 6, 9], []), audio_length = 10\<rparr>" 0 True]
    empty_clip_pool
      [of "\<lparr>goon_clips = [''intro.mp4''], zeta_clips = [''a.mp4''], broken_clips = {''a.mp4''},
        config_file = None, detected = ([1, 3, 6, 9], []), audio_length = 10\<rparr>" 0 True
        "[1]" 3 "[6, 9]"]
  by (simp add: MIN_INTRO_DURATION_def select_clips_def random_choice_def detect_beats_def
      upt_rec Let_def)

subsection \<open>Determinism\<close>

lemma plan_segments_bounds_closed:
  assumes "plan_segments min_intro ic rc br beats ad fw = Inr segs"
      and "next_beat_after_intro min_intro beats = Some nb"
  shows "map bounds segs =
     (let tail = filter (\<lambda>b. nb < b) beats
      in (0, nb) # map (\<lambda>i. (tail ! i, tail ! Suc i)) [0..<length tail - 1] @
         (if tail \<noteq> [] \<and> last tail < ad then [(last tail, ad)] else []))"
  using assms(1)
  by (auto simp: plan_segments_closed [OF assms(2)] bounds_def Let_def split: if_splits)

lemma plan_segments_bounds:
  assumes "plan_segments min_intro ic1 rc1 br1 beats ad fw1 = Inr segs1"
      and "plan_segments min_intro ic2 rc2 br2 beats ad fw2 = Inr segs2"
  shows "map bounds segs1 = map bounds segs2"
proof -
  from assms(1) obtain nb where nb: "next_beat_after_intro min_intro beats = Some nb"
    by (rule plan_segments_success)
  show ?thesis
    by (simp only: plan_segments_bounds_closed [OF assms(1) nb]
        plan_segments_bounds_closed [OF assms(2) nb])
qed

lemma plan_segments_other_intro:
  assumes "ic1 \<notin> br" and "ic2 \<notin> br"
  shows "plan_segments min_intro ic2 rc br beats ad fw =
     map_sum id
       (\<lambda>segs. if filter (\<lambda>p. p \<notin> br) rc = [] then map (\<lambda>s. s\<lparr>clip := ic2\<rparr>) segs
               else (hd segs)\<lparr>clip := ic2\<rparr> # tl segs)
       (plan_segments min_intro ic1 rc br beats ad fw)"
proof (cases "next_beat_after_intro min_intro beats")
  case None
  then show ?thesis
    by (simp add: plan_segments_def)
next
  case (Some nb)
  show ?thesis
  proof (cases "filter (\<lambda>p. p \<notin> br) rc = []")
    case True
    then show ?thesis
      using assms
      by (simp add: plan_segments_intro_only [OF Some True] Let_def)
  next
    case False
    then have "load_clips br ic2 rc = load_clips br ic1 rc"
      by (simp add: load_clips_def)
    then show ?thesis
      using assms False
      by (simp add: plan_segments_found [OF Some])
  qed
qed

text \<open>
  C7, as amended. Take two runs that read the same clip folders, the same unreadable
  clips, the same beat list and the same audio duration, with the same direction, and
  let \<open>ic1\<close> and \<open>ic2\<close> be the intro clips they draw at line 153. If the two intro clips
  are the same, the runs return the same result. In any case two plans have the same
  boundaries. If both intro clips load, the second run returns what the first returns
  with the intro clip exchanged: the same error, or the same plan with the intro segment
  cut from \<open>ic2\<close> and the later segments unchanged when some main clip loads, and with
  every segment cut from \<open>ic2\<close> when none does.
\<close>

theorem planner_deterministic:
  assumes "goon_clips e1 = goon_clips e2" and "zeta_clips e1 = zeta_clips e2"
      and "broken_clips e1 = broken_clips e2"
      and "fst (detect_beats (config_file e1) (detected e1)) =
           fst (detect_beats (config_file e2) (detected e2))"
      and "audio_length e1 = audio_length e2"
      and "select_clips (goon_clips e1) (zeta_clips e1) pick1 = Inr (ic1, rc1)"
      and "select_clips (goon_clips e2) (zeta_clips e2) pick2 = Inr (ic2, rc2)"
  shows "(ic1 = ic2 \<longrightarrow>
            create_beat_synchronized_video e1 pick1 fw =
            create_beat_synchronized_video e2 pick2 fw)
       \<and> (\<forall>segs1 segs2.
            create_beat_synchronized_video e1 pick1 fw = Inr segs1 \<and>
            create_beat_synchronized_video e2 pick2 fw = Inr segs2 \<longrightarrow>
              map bounds segs1 = map bounds segs2)
       \<and> (ic1 \<notin> broken_clips e1 \<and> ic2 \<notin> broken_clips e1 \<longrightarrow>
            create_beat_synchronized_video e2 pick2 fw =
              map_sum id
                (\<lambda>segs. if filter (\<lambda>p. p \<notin> broken_clips e1) (zeta_clips e1) = []
                        then map (\<lambda>s. s\<lparr>clip := ic2\<rparr>) segs
                        else (hd segs)\<lparr>clip := ic2\<rparr> # tl segs)
                (create_beat_synchronized_video e1 pick1 fw))"
proof -
  have rc: "rc1 = zeta_clips e2" "rc2 = zeta_clips e2"
    using assms(2,6,7) by (auto simp: select_clips_def split: if_splits)
  have run1: "create_beat_synchronized_video e1 pick1 fw =
      plan_segments MIN_INTRO_DURATION ic1 (zeta_clips e2) (broken_clips e2)
        (fst (detect_beats (config_file e2) (detected e2))) (audio_length e2) fw"
    using assms(3,4,5,6) rc by (simp add: create_beat_synchronized_video_def)
  have run2: "create_beat_synchronized_video e2 pick2 fw =
      plan_segments MIN_INTRO_DURATION ic2 (zeta_clips e2) (broken_clips e2)
        (fst (detect_beats (config_file e2) (detected e2))) (audio_length e2) fw"
    using assms(7) rc by (simp add: create_beat_synchronized_video_def)
  show ?thesis
  proof (intro conjI allI impI)
    assume "ic1 = ic2"
    then show "create_beat_synchronized_video e1 pick1 fw =
            create_beat_synchronized_video e2 pick2 fw"
      by (simp add: run1 run2)
  next
    fix segs1 segs2
    assume "create_beat_synchronized_video e1 pick1 fw = Inr segs1 \<and>
            create_beat_synchronized_video e2 pick2 fw = Inr segs2"
    then show "map bounds segs1 = map bounds segs2"
      unfolding run1 run2 by (auto intro: plan_segments_bounds)
  next
    assume "ic1 \<notin> broken_clips e1 \<and> ic2 \<notin> broken_clips e1"
    then show "create_beat_synchronized_video e2 pick2 fw =
              map_sum id
                (\<lambda>segs. if filter (\<lambda>p. p \<notin> broken_clips e1) (zeta_clips e1) = []
                        then map (\<lambda>s. s\<lparr>clip := ic2\<rparr>) segs
                        else (hd segs)\<lparr>clip := ic2\<rparr> # tl segs)
                (create_beat_synchronized_video e1 pick1 fw)"
      unfolding run1 run2 assms(2,3)
      by (intro plan_segments_other_intro) simp_all
  qed
qed

text \<open>
  C7 as stated fails: the same environment and the same direction, with the two draws of
  the intro clip, give two plans that differ in the clip of the intro segment.
\<close>

theorem planner_deterministic_counterexample:
  "create_beat_synchronized_video
     \<lparr>goon_clips = [''g0.mp4'', ''g1.mp4''], zeta_clips = [''a.mp4'', ''b.mp4''],
      broken_clips = {},
      config_file = Some \<lparr>cfg_labeled_beats = None, cfg_beats = Some [1, 3, 6, 9]\<rparr>,
      detected = ([], []), audio_length = 10\<rparr> 0 True =
     Inr [\<lparr>start_time = 0, end_time = 3, clip = ''g0.mp4''\<rparr>,
          \<lparr>start_time = 6, end_time = 9, clip = ''a.mp4''\<rparr>,
          \<lparr>start_time = 9, end_time = 10, clip = ''b.mp4''\<rparr>]
   \<and> create_beat_synchronized_video
     \<lparr>goon_clips = [''g0.mp4'', ''g1.mp4''], zeta_clips = [''a.mp4'', ''b.mp4''],
      broken_clips = {},
      config_file = Some \<lparr>cfg_labeled_beats = None, cfg_beats = Some [1, 3, 6, 9]\<rparr>,
      detected = ([], []), audio_length = 10\<rparr> 1 True =
     Inr [\<lparr>start_time = 0, end_time = 3, clip = ''g1.mp4''\<rparr>,
          \<lparr>start_time = 6, end_time = 9, clip = ''a.mp4''\<rparr>,
          \<lparr>start_time = 9, end_time = 10, clip = ''b.mp4''\<rparr>]
   \<and> create_beat_synchronized_video
     \<lparr>goon_clips = [''g0.mp4'', ''g1.mp4''], zeta_clips = [''a.mp4'', ''b.mp4''],
      broken_clips = {},
      config_file = Some \<lparr>cfg_labeled_beats = None, cfg_beats = Some [1, 3, 6, 9]\<rparr>,
      detected = ([], []), audio_length = 10\<rparr> 0 True \<noteq>
     create_beat_synchronized_video
     \<lparr>goon_clips = [''g0.mp4'', ''g1.mp4''], zeta_clips = [''a.mp4'', ''b.mp4''],
      broken_clips = {},
      config_file = Some \<lparr>cfg_labeled_beats = None, cfg_beats = Some [1, 3, 6, 9]\<rparr>,
      detected = ([], []), audio_length = 10\<rparr> 1 True"
  by (simp add: create_beat_synchronized_video_def MIN_INTRO_DURATION_def select_clips_def
      random_choice_def detect_beats_def plan_eval)

text \<open>
  An instance: two environments that get the beats 1, 3, 6, 9 from different sources, no
  main clip, and the two draws of the intro clip.
\<close>

theorem planner_deterministic_witness:
  "select_clips [''g0.mp4'', ''g1.mp4''] [] 0 = Inr (''g0.mp4'', [])
   \<and> select_clips [''g0.mp4'', ''g1.mp4''] [] 1 = Inr (''g1.mp4'', [])
   \<and> create_beat_synchronized_video
     \<lparr>goon_clips = [''g0.mp4'', ''g1.mp4''], zeta_clips = [], broken_clips = {},
      config_file = Some \<lparr>cfg_labeled_beats = Some [(''drop'', [6, 1]), (''kick'', [3, 9])],
                           cfg_beats = None\<rparr>,
      detected = ([], []), audio_length = 10\<rparr> 0 False =
     Inr [\<lparr>start_time = 0, end_time = 3, clip = ''g0.mp4''\<rparr>,
          \<lparr>start_time = 6, end_time = 9, clip = ''g0.mp4''\<rparr>,
          \<lparr>start_time = 9, end_time = 10, clip = ''g0.mp4''\<rparr>]
   \<and> create_beat_synchronized_video
     \<lparr>goon_clips = [''g0.mp4'', ''g1.mp4''], zeta_clips = [], broken_clips = {},
      config_file = Some \<lparr>cfg_labeled_beats = None, cfg_beats = Some [1, 3, 6, 9]\<rparr>,
      detected = ([7], [(''drop'', [7])]), audio_length = 10\<rparr> 1 False =
     Inr [\<lparr>start_time = 0, end_time = 3, clip = ''g1.mp4''\<rparr>,
          \<lparr>start_time = 6, end_time = 9, clip = ''g1.mp4''\<rparr>,
          \<lparr>start_time = 9, end_time = 10, clip = ''g1.mp4''\<rparr>]"
proof -
  let ?e1 = "\<lparr>goon_clips = [''g0.mp4'', ''g1.mp4''], zeta_clips = [], broken_clips = {},
      config_file = Some \<lparr>cfg_labeled_beats = Some [(''drop'', [6, 1]), (''kick'', [3, 9])],
                           cfg_beats = None\<rparr>,
      detected = ([], []), audio_length = 10\<rparr>"
  let ?e2 = "\<lparr>goon_clips = [''g0.mp4'', ''g1.mp4''], zeta_clips = [], broken_clips = {},
      config_file = Some \<lparr>cfg_labeled_beats = None, cfg_beats = Some [1, 3, 6, 9]\<rparr>,
      detected = ([7], [(''drop'', [7])]), audio_length = 10\<rparr>"
  have first: "create_beat_synchronized_video ?e1 0 False =
     Inr [\<lparr>start_time = 0, end_time = 3, clip = ''g0.mp4''\<rparr>,
          \<lparr>start_time = 6, end_time = 9, clip = ''g0.mp4''\<rparr>,
          \<lparr>start_time = 9, end_time = 10, clip = ''g0.mp4''\<rparr>]"
    by (simp add: create_beat_synchronized_video_def MIN_INTRO_DURATION_def select_clips_def
        random_choice_def detect_beats_def plan_eval)
  have s1: "select_clips (goon_clips ?e1) (zeta_clips ?e1) 0 = Inr (''g0.mp4'', [])"
    and s2: "select_clips (goon_clips ?e2) (zeta_clips ?e2) 1 = Inr (''g1.mp4'', [])"
    by (simp_all add: select_clips_def random_choice_def)
  have second: "create_beat_synchronized_video ?e2 1 False =
     Inr [\<lparr>start_time = 0, end_time = 3, clip = ''g1.mp4''\<rparr>,
          \<lparr>start_time = 6, end_time = 9, clip = ''g1.mp4''\<rparr>,
          \<lparr>start_time = 9, end_time = 10, clip = ''g1.mp4''\<rparr>]"
    using planner_deterministic [of ?e1 ?e2 0 "''g0.mp4''" "[]" 1 "''g1.mp4''" "[]" False,
        OF _ _ _ _ _ s1 s2]
    by (simp add: detect_beats_def first)
  show ?thesis
    using first second s1 s2 by simp
qed

subsection \<open>Beats from a configuration file\<close>

text \<open>
  C9. A configuration with a \<^verbatim>\<open>beats\<close> key and no \<^verbatim>\<open>labeled_beats\<close> key has its list
  returned as it is stored, with no labelled beats. A configuration with a
  \<^verbatim>\<open>labeled_beats\<close> key has the timestamps of all its labels returned together, sorted,
  every timestamp as often as it occurs. Nothing checks that the list is strictly
  increasing: some stored list is returned although it is not.
\<close>

theorem config_beats_unchecked:
  "(cfg_labeled_beats c = None \<and> cfg_beats c = Some bs \<longrightarrow>
      detect_beats (Some c) d = (bs, []))
   \<and> (cfg_labeled_beats c = Some lb \<longrightarrow>
        detect_beats (Some c) d = (sort (concat (map snd lb)), lb)
        \<and> sorted (fst (detect_beats (Some c) d))
        \<and> set (fst (detect_beats (Some c) d)) = (\<Union>times\<in>set (map snd lb). set times)
        \<and> length (fst (detect_beats (Some c) d)) = sum_list (map (\<lambda>(label, times). length times) lb))
   \<and> (\<exists>bs'. \<not> sorted_wrt (<)
          (fst (detect_beats (Some \<lparr>cfg_labeled_beats = None, cfg_beats = Some bs'\<rparr>) d)))"
proof (intro conjI impI)
  assume "cfg_labeled_beats c = None \<and> cfg_beats c = Some bs"
  then show "detect_beats (Some c) d = (bs, [])"
    by (simp add: detect_beats_def)
next
  assume lb: "cfg_labeled_beats c = Some lb"
  then show eq: "detect_beats (Some c) d = (sort (concat (map snd lb)), lb)"
    by (simp add: detect_beats_def)
  show "sorted (fst (detect_beats (Some c) d))"
    by (simp add: eq)
  show "set (fst (detect_beats (Some c) d)) = (\<Union>times\<in>set (map snd lb). set times)"
    by (simp add: eq)
  show "length (fst (detect_beats (Some c) d)) = sum_list (map (\<lambda>(label, times). length times) lb)"
    by (simp add: eq length_concat comp_def case_prod_unfold)
next
  have "\<not> sorted_wrt (<)
          (fst (detect_beats (Some \<lparr>cfg_labeled_beats = None, cfg_beats = Some [2, 1]\<rparr>) d))"
    by (simp add: detect_beats_def)
  then show "\<exists>bs'. \<not> sorted_wrt (<)
          (fst (detect_beats (Some \<lparr>cfg_labeled_beats = None, cfg_beats = Some bs'\<rparr>) d))" ..
qed

text \<open>Instances: a flat list that is out of order, and two labels that share a beat.\<close>

theorem config_beats_unchecked_witness:
  "detect_beats (Some \<lparr>cfg_labeled_beats = None, cfg_beats = Some [3, 1, 1, -2]\<rparr>) ([7], []) =
     ([3, 1, 1, -2], [])
   \<and> \<not> sorted_wrt (<) [3, 1, 1, -2 :: real]
   \<and> detect_beats (Some \<lparr>cfg_labeled_beats = Some [(''drop'', [6, 1]), (''kick'', [3, 1])],
                         cfg_beats = Some [9]\<rparr>) ([7], []) =
     ([1, 1, 3, 6], [(''drop'', [6, 1]), (''kick'', [3, 1])])"
  using config_beats_unchecked
      [of "\<lparr>cfg_labeled_beats = None, cfg_beats = Some [3, 1, 1, -2]\<rparr>" "[3, 1, 1, -2]" "([7], [])"]
    config_beats_unchecked
      [of "\<lparr>cfg_labeled_beats = Some [(''drop'', [6, 1]), (''kick'', [3, 1])],
           cfg_beats = Some [9]\<rparr>" _ "([7], [])" "[(''drop'', [6, 1]), (''kick'', [3, 1])]"]
  by simp

section \<open>Properties of the uploader\<close>

subsection \<open>The video file after an upload\<close>






subsection \<open>Tracking of uploaded videos\<close>

text \<open>The definitions that evaluate an upload run on given inputs.\<close>

lemmas upload_eval =
  upload_multiple_videos_def video_files_def init_def is_video_name_def lower_def
  lower_char_def endswith_def os_path_join_def priv_upload_single_video_def os_remove_def
  append_line_def strip_def whitespace_def Let_def

text \<open>
  What the tracking does guarantee: a run opens the upload page only for videos that are
  not in the set; a video reported as uploaded is in the set and is the last line of the
  tracking file; and a later uploader has the stripped form of every line in its set.
\<close>

lemma video_files_not_uploaded:
  "p \<in> set (video_files videos_dir names uploaded) \<Longrightarrow> p \<notin> uploaded"
  by (simp add: video_files_def)

lemma upload_single_attempts:
  "set (attempts (snd (priv_upload_single_video outcome p w))) \<subseteq> insert p (set (attempts w))"
  by (cases outcome)
     (auto simp: priv_upload_single_video_def os_remove_def append_line_def Let_def)

lemma upload_loop_attempts:
  "set (attempts (snd (upload_loop browser max_uploads n vs w))) \<subseteq> set (attempts w) \<union> set vs"
proof (induction vs arbitrary: n w)
  case Nil
  then show ?case by simp
next
  case (Cons v vs)
  obtain r w' where step: "priv_upload_single_video (browser v) v w = (r, w')"
    by (cases "priv_upload_single_video (browser v) v w")
  have first: "set (attempts w') \<subseteq> insert v (set (attempts w))"
    using upload_single_attempts [of "browser v" v w] by (simp add: step)
  have rest: "set (attempts (snd (upload_loop browser max_uploads k vs w')))
      \<subseteq> insert v (set (attempts w)) \<union> set vs" for k
    using Cons.IH [of k w'] first by blast
  show ?case
    using first rest [of n] rest [of "n + 1"]
    by (cases r) (auto simp: step split: option.splits)
qed

lemma upload_multiple_videos_attempts:
  assumes "p \<in> set (attempts (snd (upload_multiple_videos videos_dir listing s browser max_uploads w)))"
  shows "p \<in> set (attempts w) \<or> p \<notin> uploaded_videos w"
proof (cases listing)
  case None
  then show ?thesis
    using assms by (simp add: upload_multiple_videos_def)
next
  case (Some names)
  show ?thesis
    using assms upload_loop_attempts [of browser max_uploads 0
        "video_files videos_dir names (uploaded_videos w)" w]
      video_files_not_uploaded [of p videos_dir names "uploaded_videos w"]
    by (auto simp: upload_multiple_videos_def Some Let_def split: if_splits prod.splits sum.splits)
qed

lemma upload_single_recorded:
  assumes "fst (priv_upload_single_video outcome p w) = Inr True"
  shows "p \<in> uploaded_videos (snd (priv_upload_single_video outcome p w))"
    and "p \<noteq> tracking_file w \<Longrightarrow>
         files (snd (priv_upload_single_video outcome p w)) (tracking_file w) =
           Some ((case files w (tracking_file w) of None \<Rightarrow> [] | Some ls \<Rightarrow> ls) @ [p])"
  using assms
  by (cases outcome;
      auto simp: priv_upload_single_video_def os_remove_def append_line_def Let_def
        split: if_splits)+

lemma init_remembers:
  "fs tracking = Some ls \<Longrightarrow> p \<in> set ls \<Longrightarrow> strip p \<in> uploaded_videos (init tracking fs)"
  by (simp add: init_def)

lemma no_second_upload_of_stripped_path:
  assumes "fs tracking = Some ls" and "p \<in> set ls" and "strip p = p"
  shows "p \<notin> set (attempts (snd (upload_multiple_videos videos_dir listing s browser max_uploads
                                   (init tracking fs))))"
proof
  assume "p \<in> set (attempts (snd (upload_multiple_videos videos_dir listing s browser max_uploads
                                   (init tracking fs))))"
  then have "p \<notin> uploaded_videos (init tracking fs)"
    using upload_multiple_videos_attempts [of p videos_dir listing s browser max_uploads
        "init tracking fs"]
    by (simp add: init_def)
  then show False
    using init_remembers [of fs tracking ls p] assms by simp
qed

text \<open>
  C10. The set is read back with every line stripped (line 69), while the test of line
  650 and the line written at line 483 use the path as it is. A video in a directory
  whose name starts with a blank is uploaded and recorded by one run; when a file of the
  same path is there again, the next uploader reads the stripped path, does not find the
  video's path in its set, and uploads it a second time.
\<close>

theorem tracked_video_uploaded_again:
  "fst (upload_multiple_videos '' videos'' (Some [''a.mp4''])
          \<lparr>setup_driver = True, cookie_login = True, manual_login = False\<rparr> (\<lambda>video. Posted) None
          (init ''uploaded_videos.txt'' ['' videos/a.mp4'' \<mapsto> []])) = 1
   \<and> files (snd (upload_multiple_videos '' videos'' (Some [''a.mp4''])
          \<lparr>setup_driver = True, cookie_login = True, manual_login = False\<rparr> (\<lambda>video. Posted) None
          (init ''uploaded_videos.txt'' ['' videos/a.mp4'' \<mapsto> []]))) ''uploaded_videos.txt'' =
       Some ['' videos/a.mp4'']
   \<and> uploaded_videos (init ''uploaded_videos.txt''
          [''uploaded_videos.txt'' \<mapsto> ['' videos/a.mp4''], '' videos/a.mp4'' \<mapsto> []]) =
       {''videos/a.mp4''}
   \<and> attempts (snd (upload_multiple_videos '' videos'' (Some [''a.mp4''])
          \<lparr>setup_driver = True, cookie_login = True, manual_login = False\<rparr> (\<lambda>video. Posted) None
          (init ''uploaded_videos.txt''
             [''uploaded_videos.txt'' \<mapsto> ['' videos/a.mp4''], '' videos/a.mp4'' \<mapsto> []]))) =
       ['' videos/a.mp4'']"
  by (simp add: upload_eval)

end
